theory Spec2Isabelle
  imports Main
begin

section \<open>Policy snapshot\<close>

text \<open>
  The dataclass \<^verbatim>\<open>PolicyConfig\<close> of \<^verbatim>\<open>sdk/spawn/__init__.py\<close>. The permission sets,
  path lists and command lists are Python lists of strings; the caps are Python integers.
  The auto-spawn mode is a plain string in the source, so it is one here.
\<close>

record PolicyConfig =
  auto_spawn_mode :: string
  max_concurrent_sub_agents :: int
  max_sub_agents_per_hour :: int
  max_tokens_per_sub_agent :: int
  permissions_allowed :: "string list"
  permissions_forbidden :: "string list"
  permissions_ask :: "string list"
  allowed_paths :: "string list"
  forbidden_paths :: "string list"
  allowed_commands :: "string list"
  allowed_network_domains :: "string list"
  check_in_hours :: int

text \<open>The field defaults of the dataclass: the policy in force until the relay sends one.\<close>

definition default_policy :: PolicyConfig where
  "default_policy = \<lparr>
     auto_spawn_mode = ''off'',
     max_concurrent_sub_agents = 5,
     max_sub_agents_per_hour = 10,
     max_tokens_per_sub_agent = 50000,
     permissions_allowed = [''files.read'', ''agent.message''],
     permissions_forbidden = [''system.shell'', ''files.delete'', ''agent.spawn''],
     permissions_ask = [''files.write'', ''process.execute'', ''network.fetch''],
     allowed_paths = [],
     forbidden_paths = [''~/.ssh/**'', ''~/.aws/**'', ''~/.config/gcloud/**'',
                        ''**/.env'', ''**/*.pem'', ''**/*.key'', ''**/secrets/**''],
     allowed_commands = [],
     allowed_network_domains = [],
     check_in_hours = 4 \<rparr>"

text \<open>The exceptions of the source that the claims are about.\<close>

datatype error = PermissionError | IndexError | InvalidStateError | ConnectionClosed

section \<open>Strings\<close>

text \<open>
  Strings are lists of 8-bit characters, read as the code points below 256. The
  backslash and the line feed are written by their codes.
\<close>

definition backslash :: char where
  "backslash = CHR 0x5C"

definition newline :: char where
  "newline = CHR 0x0A"

definition startswith :: "string \<Rightarrow> string \<Rightarrow> bool" where
  "startswith s p = (take (length p) s = p)"

text \<open>
  Python's \<^verbatim>\<open>s.replace(old, new)\<close> for a non-empty \<open>old\<close>: the occurrences are replaced
  from the left and do not overlap. Every call in the source passes a non-empty literal
  (for an empty \<open>old\<close> the function below copies its argument).
\<close>

function replace :: "string \<Rightarrow> string \<Rightarrow> string \<Rightarrow> string" where
  "replace old new [] = []"
| "replace old new (c # cs) =
     (if old \<noteq> [] \<and> take (length old) (c # cs) = old
      then new @ replace old new (drop (length old - 1) cs)
      else c # replace old new cs)"
  by pat_completeness auto
termination
  by (relation "measure (\<lambda>(old, new, s). length s)") auto

text \<open>
  Python's \<^verbatim>\<open>str.isspace\<close> on the code points below 256: tab to carriage return,
  the four separators \<open>0x1C\<close> to \<open>0x1F\<close>, the blank, the next-line control \<open>0x85\<close> and
  the no-break space \<open>0xA0\<close>.
\<close>

definition is_space :: "char \<Rightarrow> bool" where
  "is_space c = (let n = (of_char c :: nat) in
       n = 32 \<or> (9 \<le> n \<and> n \<le> 13) \<or> (28 \<le> n \<and> n \<le> 31) \<or> n = 133 \<or> n = 160)"

text \<open>
  \<^verbatim>\<open>s.split()\<close> with no argument: the maximal runs of non-space characters, in order;
  \<open>cur\<close> holds the run read so far, reversed.
\<close>

fun split_from :: "string \<Rightarrow> string \<Rightarrow> string list" where
  "split_from cur [] = (if cur = [] then [] else [rev cur])"
| "split_from cur (c # cs) =
     (if is_space c then (if cur = [] then split_from [] cs else rev cur # split_from [] cs)
      else split_from (c # cur) cs)"

definition split :: "string \<Rightarrow> string list" where
  "split s = split_from [] s"

section \<open>The glob matcher\<close>

text \<open>
  \<^verbatim>\<open>_match_glob\<close> rewrites the pattern into a regular expression with four string
  replacements, anchors it with \<^verbatim>\<open>^\<close> and \<^verbatim>\<open>$\<close> and calls \<^verbatim>\<open>re.match\<close>. The regular
  expressions that arise from patterns made of ordinary characters, dots and stars are
  sequences of three kinds of item: an ordinary character or an escaped dot, the item
  \<^verbatim>\<open>.*\<close> and the item \<^verbatim>\<open>[^/]*\<close>.
\<close>

datatype tok = Lit char | DotStar | NoSlashStar

definition is_meta :: "char \<Rightarrow> bool" where
  "is_meta c = (c \<in> set (''.^$*+?{}[]|()'' @ [backslash]))"

text \<open>
  Reading a regular expression of that fragment. Any other use of a character that is
  special to \<^verbatim>\<open>re\<close> gives \<open>None\<close>: the expression is outside the fragment modelled here
  (Python would interpret it as a regular expression, or raise \<^verbatim>\<open>re.error\<close>).
\<close>

fun parse_regex :: "string \<Rightarrow> tok list option" where
  "parse_regex [] = Some []"
| "parse_regex (c # cs) =
     (if take 2 (c # cs) = [backslash, CHR ''.'']
        then map_option (Cons (Lit CHR ''.'')) (parse_regex (drop 1 cs))
      else if take 5 (c # cs) = ''[^/]*''
        then map_option (Cons NoSlashStar) (parse_regex (drop 4 cs))
      else if take 2 (c # cs) = ''.*''
        then map_option (Cons DotStar) (parse_regex (drop 1 cs))
      else if is_meta c then None
      else map_option (Cons (Lit c)) (parse_regex cs))"

text \<open>
  Matching from the current position to the closing \<^verbatim>\<open>$\<close>. Without flags, the dot of
  \<^verbatim>\<open>re\<close> matches every character but the line feed, the class \<^verbatim>\<open>[^/]\<close> every character
  but the slash, and \<^verbatim>\<open>$\<close> holds at the end of the string and also just before a line
  feed that ends the string. A match exists when some split of the text fits, so the
  starred items try both to stop and to take one more character.
\<close>

fun match_toks :: "tok list \<Rightarrow> string \<Rightarrow> bool" where
  "match_toks [] s = (s = [] \<or> s = [newline])"
| "match_toks (Lit c # ts) s =
     (case s of [] \<Rightarrow> False | x # xs \<Rightarrow> x = c \<and> match_toks ts xs)"
| "match_toks (DotStar # ts) s =
     (match_toks ts s \<or>
      (case s of [] \<Rightarrow> False | x # xs \<Rightarrow> x \<noteq> newline \<and> match_toks (DotStar # ts) xs))"
| "match_toks (NoSlashStar # ts) s =
     (match_toks ts s \<or>
      (case s of [] \<Rightarrow> False | x # xs \<Rightarrow> x \<noteq> CHR ''/'' \<and> match_toks (NoSlashStar # ts) xs))"

text \<open>
  \<^verbatim>\<open>bool(re.match(regex, s))\<close> for an expression of the form \<^verbatim>\<open>^...$\<close> whose body is in
  the fragment.
\<close>

definition re_match :: "string \<Rightarrow> string \<Rightarrow> bool option" where
  "re_match regex s =
     (case regex of
        [] \<Rightarrow> None
      | c # rest \<Rightarrow>
          if c = CHR ''^'' \<and> rest \<noteq> [] \<and> last rest = CHR ''$''
          then map_option (\<lambda>ts. match_toks ts s) (parse_regex (butlast rest))
          else None)"

definition match_glob :: "string \<Rightarrow> string \<Rightarrow> bool option" where
  "match_glob path pattern =
     (let regex = replace ''.'' [backslash, CHR ''.''] pattern;
          regex = replace ''**'' ''<<<DOUBLESTAR>>>'' regex;
          regex = replace ''*'' ''[^/]*'' regex;
          regex = replace ''<<<DOUBLESTAR>>>'' ''.*'' regex;
          regex = ''^'' @ regex @ ''$''
      in re_match regex path)"

section \<open>The policy module\<close>

text \<open>
  The functions of the class \<^verbatim>\<open>policy\<close> read the current policy through
  \<^verbatim>\<open>get_policy()\<close>; here the policy is an argument. \<^verbatim>\<open>os.path.expanduser\<close> belongs to
  the Python library and reads the process environment, so it is an argument too.

  The loop of \<^verbatim>\<open>is_path_allowed\<close> and \<^verbatim>\<open>is_path_forbidden\<close>: the first pattern that
  matches returns True. The result is \<open>None\<close> when a pattern that the loop reaches is
  outside the fragment of \<open>re_match\<close>.
\<close>

fun match_any :: "(string \<Rightarrow> string) \<Rightarrow> string \<Rightarrow> string list \<Rightarrow> bool option" where
  "match_any expanduser path [] = Some False"
| "match_any expanduser path (pattern # patterns) =
     (case match_glob path (expanduser pattern) of
        None \<Rightarrow> None
      | Some True \<Rightarrow> Some True
      | Some False \<Rightarrow> match_any expanduser path patterns)"

definition is_path_allowed :: "(string \<Rightarrow> string) \<Rightarrow> PolicyConfig \<Rightarrow> string \<Rightarrow> bool option" where
  "is_path_allowed expanduser cfg path = match_any expanduser (expanduser path) (allowed_paths cfg)"

definition is_path_forbidden :: "(string \<Rightarrow> string) \<Rightarrow> PolicyConfig \<Rightarrow> string \<Rightarrow> bool option" where
  "is_path_forbidden expanduser cfg path = match_any expanduser (expanduser path) (forbidden_paths cfg)"

text \<open>
  The target of \<^verbatim>\<open>is_allowed\<close> defaults to \<^verbatim>\<open>None\<close>. The source tests it by truth
  value, so the empty string counts like \<^verbatim>\<open>None\<close>. In \<^verbatim>\<open>a and not b\<close> the right
  operand is evaluated only when the left one is true.
\<close>

definition truthy :: "string option \<Rightarrow> bool" where
  "truthy target = (case target of None \<Rightarrow> False | Some t \<Rightarrow> t \<noteq> [])"

definition is_allowed ::
  "(string \<Rightarrow> string) \<Rightarrow> PolicyConfig \<Rightarrow> string \<Rightarrow> string option \<Rightarrow> bool option" where
  "is_allowed expanduser cfg permission target =
     (if permission \<in> set (permissions_forbidden cfg) then Some False
      else if permission \<in> set (permissions_allowed cfg) then
        (if startswith permission ''files.'' \<and> truthy target then
           (case is_path_allowed expanduser cfg (the target) of
              None \<Rightarrow> None
            | Some False \<Rightarrow> Some False
            | Some True \<Rightarrow> map_option Not (is_path_forbidden expanduser cfg (the target)))
         else Some True)
      else Some False)"

definition is_forbidden :: "PolicyConfig \<Rightarrow> string \<Rightarrow> bool" where
  "is_forbidden cfg permission = (permission \<in> set (permissions_forbidden cfg))"

definition requires_approval :: "PolicyConfig \<Rightarrow> string \<Rightarrow> bool" where
  "requires_approval cfg permission = (permission \<in> set (permissions_ask cfg))"

text \<open>
  \<^verbatim>\<open>command.split()[0] if command else ""\<close>: the index raises \<^verbatim>\<open>IndexError\<close> when the
  split is empty.
\<close>

definition is_command_allowed :: "PolicyConfig \<Rightarrow> string \<Rightarrow> error + bool" where
  "is_command_allowed cfg command =
     (if command \<noteq> [] then
        (case split command of
           [] \<Rightarrow> Inl IndexError
         | cmd_name # _ \<Rightarrow> Inr (cmd_name \<in> set (allowed_commands cfg)))
      else Inr ([] \<in> set (allowed_commands cfg)))"

section \<open>The agents module\<close>

text \<open>
  A requested permission is a Python dict; the only key the SDK reads is \<^verbatim>\<open>scope\<close>, through
  \<^verbatim>\<open>perm.get("scope", "")\<close>. The dict is an association list here, and \<open>scope_of\<close> is that
  lookup with its default.
\<close>

type_synonym permission = "(string \<times> string) list"

definition scope_of :: "permission \<Rightarrow> string" where
  "scope_of perm = (case map_of perm ''scope'' of None \<Rightarrow> [] | Some s \<Rightarrow> s)"

text \<open>The dataclass \<^verbatim>\<open>SubAgent\<close>; a new handle has the status \<^verbatim>\<open>online\<close>.\<close>

record SubAgent =
  sub_id :: string
  sub_name :: string
  sub_role :: string
  sub_status :: string

text \<open>
  Outbound messages are dicts with a type and a payload. The values that the spawn
  messages carry are strings, \<^verbatim>\<open>None\<close>, booleans and permission lists. The fields
  that the source fills from a fresh UUID or from the clock (\<^verbatim>\<open>id\<close>, \<^verbatim>\<open>ts\<close>,
  \<^verbatim>\<open>request_id\<close>) are left out.
\<close>

datatype jv = JNull | JBool bool | JStr string | JPerms "permission list" | JObj "(string \<times> jv) list"

record message =
  msg_type :: string
  msg_payload :: "(string \<times> jv) list"

definition opt_str :: "string option \<Rightarrow> jv" where
  "opt_str x = (case x of None \<Rightarrow> JNull | Some s \<Rightarrow> JStr s)"

text \<open>
  The state of the class \<^verbatim>\<open>agents\<close>: the list \<^verbatim>\<open>_active\<close>, the counter
  \<^verbatim>\<open>_spawned_this_hour\<close> and the attribute \<^verbatim>\<open>_spawning_paused\<close> (absent until
  \<^verbatim>\<open>pause_spawning\<close> sets it; False stands for absent). \<open>sent\<close> lists, in order, the
  messages handed to the connection, which is taken to be open: sending does not fail.
\<close>

record registry =
  active :: "SubAgent list"
  spawned_this_hour :: int
  spawning_paused :: bool
  sent :: "message list"

definition empty_registry :: registry where
  "empty_registry = \<lparr> active = [], spawned_this_hour = 0, spawning_paused = False, sent = [] \<rparr>"

definition send :: "message \<Rightarrow> registry \<Rightarrow> registry" where
  "send m reg = reg\<lparr>sent := sent reg @ [m]\<rparr>"

definition can_spawn :: "PolicyConfig \<Rightarrow> registry \<Rightarrow> bool" where
  "can_spawn cfg reg =
     (if auto_spawn_mode cfg = ''off'' then True
      else if int (length (active reg)) \<ge> max_concurrent_sub_agents cfg then False
      else if spawned_this_hour reg \<ge> max_sub_agents_per_hour cfg then False
      else True)"

definition active_count :: "registry \<Rightarrow> int" where
  "active_count reg = int (length (active reg))"

text \<open>
  The loop of \<^verbatim>\<open>would_auto_approve\<close> over the requested permissions: the first forbidden
  scope, or the first ask-scope in constrained mode, returns False at once.
\<close>

fun check_permissions :: "PolicyConfig \<Rightarrow> permission list \<Rightarrow> bool" where
  "check_permissions cfg [] = True"
| "check_permissions cfg (perm # perms) =
     (if scope_of perm \<in> set (permissions_forbidden cfg) then False
      else if auto_spawn_mode cfg = ''constrained'' \<and> scope_of perm \<in> set (permissions_ask cfg)
        then False
      else check_permissions cfg perms)"

definition would_auto_approve :: "PolicyConfig \<Rightarrow> permission list \<Rightarrow> bool" where
  "would_auto_approve cfg permissions =
     (if auto_spawn_mode cfg = ''off'' \<or> auto_spawn_mode cfg = ''queue'' then False
      else if auto_spawn_mode cfg = ''unrestricted'' then True
      else check_permissions cfg permissions)"

text \<open>\<^verbatim>\<open>permissions or []\<close> and \<^verbatim>\<open>role or "Sub-Agent"\<close>.\<close>

definition perms_or_empty :: "permission list option \<Rightarrow> permission list" where
  "perms_or_empty permissions = (case permissions of None \<Rightarrow> [] | Some ps \<Rightarrow> ps)"

definition role_or_default :: "string option \<Rightarrow> string" where
  "role_or_default role = (case role of None \<Rightarrow> ''Sub-Agent'' | Some r \<Rightarrow> if r = [] then ''Sub-Agent'' else r)"

text \<open>
  The arguments of \<^verbatim>\<open>request_spawn\<close> and \<^verbatim>\<open>spawn\<close>. The identifier of the new sub-agent
  is built in the source from the name and a fresh UUID; it is the field \<open>new_id\<close> here.
\<close>

record spawn_args =
  arg_name :: string
  arg_role :: "string option"
  arg_description :: "string option"
  arg_permissions :: "permission list option"
  arg_lifespan :: string
  arg_reason :: "string option"
  arg_icon :: "string option"
  arg_notify :: bool
  new_id :: string

text \<open>
  What \<^verbatim>\<open>_connection._request\<close> gives back to \<^verbatim>\<open>request_spawn\<close>: \<^verbatim>\<open>None\<close> after the
  timeout, or the reply, of which only \<^verbatim>\<open>payload.decision\<close> is read.
\<close>

datatype response = Timeout | Reply "string option"

definition spawn_request_message :: "spawn_args \<Rightarrow> message" where
  "spawn_request_message a = \<lparr>
     msg_type = ''agent_spawn_request'',
     msg_payload = [
       (''proposed_agent'', JObj [
          (''id'', JStr (new_id a)),
          (''name'', JStr (arg_name a)),
          (''role'', opt_str (arg_role a)),
          (''description'', opt_str (arg_description a)),
          (''icon'', opt_str (arg_icon a)),
          (''permissions'', JPerms (perms_or_empty (arg_permissions a))),
          (''lifespan'', JStr (arg_lifespan a))]),
       (''reason'', opt_str (arg_reason a))] \<rparr>"

definition new_sub_agent :: "spawn_args \<Rightarrow> SubAgent" where
  "new_sub_agent a = \<lparr> sub_id = new_id a, sub_name = arg_name a,
     sub_role = role_or_default (arg_role a), sub_status = ''online'' \<rparr>"

definition request_spawn :: "spawn_args \<Rightarrow> response \<Rightarrow> registry \<Rightarrow> SubAgent option \<times> registry" where
  "request_spawn a resp reg =
     (let reg1 = send (spawn_request_message a) reg in
      if resp = Reply (Some ''approved'') then
        (let sub = new_sub_agent a in
         (Some sub, reg1\<lparr>active := active reg1 @ [sub],
                          spawned_this_hour := spawned_this_hour reg1 + 1\<rparr>))
      else (None, reg1))"

definition spawn_message :: "spawn_args \<Rightarrow> message" where
  "spawn_message a = \<lparr>
     msg_type = ''sub_agent_spawn'',
     msg_payload = [
       (''sub_agent_id'', JStr (new_id a)),
       (''name'', JStr (arg_name a)),
       (''role'', opt_str (arg_role a)),
       (''permissions'', JPerms (perms_or_empty (arg_permissions a))),
       (''lifespan'', JStr (arg_lifespan a)),
       (''status'', JStr ''online'')] \<rparr>"

definition spawned_notification :: "spawn_args \<Rightarrow> message" where
  "spawned_notification a = \<lparr>
     msg_type = ''notification'',
     msg_payload = [
       (''title'', JStr ''Sub-Agent Spawned''),
       (''body'', JStr (arg_name a @ '' started'')),
       (''priority'', JStr ''low''),
       (''category'', JStr ''auto_spawn'')] \<rparr>"

definition spawn :: "PolicyConfig \<Rightarrow> spawn_args \<Rightarrow> registry \<Rightarrow> (error + SubAgent) \<times> registry" where
  "spawn cfg a reg =
     (if \<not> would_auto_approve cfg (perms_or_empty (arg_permissions a)) then (Inl PermissionError, reg)
      else
        (let reg1 = send (spawn_message a) reg;
             sub = new_sub_agent a;
             reg2 = reg1\<lparr>active := active reg1 @ [sub],
                         spawned_this_hour := spawned_this_hour reg1 + 1\<rparr>;
             reg3 = (if arg_notify a then send (spawned_notification a) reg2 else reg2)
         in (Inr sub, reg3)))"

text \<open>
  \<^verbatim>\<open>spawn\<close> over a connection that may fail. \<^verbatim>\<open>_connection.send\<close> raises when the socket
  is closed; \<open>delivers m\<close> tells whether the send of the message \<open>m\<close> succeeds. The two
  sends of \<^verbatim>\<open>spawn\<close> carry different messages, so every combination of their outcomes
  is some \<open>delivers\<close>. A failed send raises out of \<^verbatim>\<open>spawn\<close>: at the first send nothing
  has been changed yet, at the notification the handle has already been appended and
  counted. \<open>spawn\<close> above is this function over a connection that delivers everything.
\<close>

definition send_via :: "(message \<Rightarrow> bool) \<Rightarrow> message \<Rightarrow> registry \<Rightarrow> error + registry" where
  "send_via delivers m reg = (if delivers m then Inr (send m reg) else Inl ConnectionClosed)"

definition spawn_via ::
  "(message \<Rightarrow> bool) \<Rightarrow> PolicyConfig \<Rightarrow> spawn_args \<Rightarrow> registry \<Rightarrow> (error + SubAgent) \<times> registry" where
  "spawn_via delivers cfg a reg =
     (if \<not> would_auto_approve cfg (perms_or_empty (arg_permissions a)) then (Inl PermissionError, reg)
      else
        (case send_via delivers (spawn_message a) reg of
           Inl e \<Rightarrow> (Inl e, reg)
         | Inr reg1 \<Rightarrow>
             (let sub = new_sub_agent a;
                  reg2 = reg1\<lparr>active := active reg1 @ [sub],
                              spawned_this_hour := spawned_this_hour reg1 + 1\<rparr>
              in if arg_notify a then
                   (case send_via delivers (spawned_notification a) reg2 of
                      Inl e \<Rightarrow> (Inl e, reg2)
                    | Inr reg3 \<Rightarrow> (Inr sub, reg3))
                 else (Inr sub, reg2))))"

definition link_up :: "message \<Rightarrow> bool" where
  "link_up m = True"

definition link_down :: "message \<Rightarrow> bool" where
  "link_down m = False"

text \<open>
  \<^verbatim>\<open>SubAgent.terminate\<close> sends one message and does nothing else: it assigns no field of
  the handle and does not touch the class \<^verbatim>\<open>agents\<close>.
\<close>

definition terminate_message :: "SubAgent \<Rightarrow> string \<Rightarrow> message" where
  "terminate_message sub reason = \<lparr>
     msg_type = ''sub_agent_terminate'',
     msg_payload = [
       (''sub_agent_id'', JStr (sub_id sub)),
       (''reason'', JStr reason),
       (''notify_user'', JBool True)] \<rparr>"

definition terminate :: "SubAgent \<Rightarrow> string \<Rightarrow> registry \<Rightarrow> registry" where
  "terminate sub reason reg = send (terminate_message sub reason) reg"

text \<open>\<^verbatim>\<open>kill_all\<close> terminates each active handle in turn and then clears the list.\<close>

fun terminate_each :: "SubAgent list \<Rightarrow> string \<Rightarrow> registry \<Rightarrow> registry" where
  "terminate_each [] reason reg = reg"
| "terminate_each (sub # subs) reason reg = terminate_each subs reason (terminate sub reason reg)"

definition kill_all :: "string \<Rightarrow> registry \<Rightarrow> registry" where
  "kill_all reason reg = (terminate_each (active reg) reason reg)\<lparr>active := []\<rparr>"

definition pause_spawning :: "registry \<Rightarrow> registry" where
  "pause_spawning reg = reg\<lparr>spawning_paused := True\<rparr>"

text \<open>
  The operations on the registry as data, and one step of a client that performs them
  one after the other under a fixed policy. A \<^verbatim>\<open>spawn\<close> that raises leaves the registry
  as it was.
\<close>

datatype operation =
    RequestSpawn spawn_args response
  | Spawn spawn_args
  | Terminate SubAgent string
  | KillAll string
  | PauseSpawning

fun step :: "PolicyConfig \<Rightarrow> registry \<Rightarrow> operation \<Rightarrow> registry" where
  "step cfg reg (RequestSpawn a resp) = snd (request_spawn a resp reg)"
| "step cfg reg (Spawn a) = snd (spawn cfg a reg)"
| "step cfg reg (Terminate sub reason) = terminate sub reason reg"
| "step cfg reg (KillAll reason) = kill_all reason reg"
| "step cfg reg PauseSpawning = pause_spawning reg"

definition run :: "PolicyConfig \<Rightarrow> registry \<Rightarrow> operation list \<Rightarrow> registry" where
  "run cfg reg ops = foldl (step cfg) reg ops"

text \<open>
  The client of \<^verbatim>\<open>examples/clawdbot_integration.py\<close> asks \<^verbatim>\<open>can_spawn()\<close> before it
  requests a spawn and does the work itself when the answer is False. \<open>guarded_step\<close>
  is a step of a client that does so before each of the two spawning operations.
\<close>

fun is_spawning :: "operation \<Rightarrow> bool" where
  "is_spawning (RequestSpawn a resp) = True"
| "is_spawning (Spawn a) = True"
| "is_spawning _ = False"

definition guarded_step :: "PolicyConfig \<Rightarrow> registry \<Rightarrow> operation \<Rightarrow> registry" where
  "guarded_step cfg reg op = (if is_spawning op \<and> \<not> can_spawn cfg reg then reg else step cfg reg op)"

definition guarded_run :: "PolicyConfig \<Rightarrow> registry \<Rightarrow> operation list \<Rightarrow> registry" where
  "guarded_run cfg reg ops = foldl (guarded_step cfg) reg ops"

section \<open>The connection: correlated requests\<close>

text \<open>
  An inbound message, as far as the dispatch loop looks at it: its type and the
  \<^verbatim>\<open>request_id\<close> of its payload when there is one; \<open>in_body\<close> stands for the rest.
\<close>

record inbound =
  in_type :: "string option"
  in_request_id :: "string option"
  in_body :: string

text \<open>
  An \<^verbatim>\<open>asyncio.Future\<close> is pending, holds a result, or is cancelled.
  \<^verbatim>\<open>set_result\<close> raises \<^verbatim>\<open>InvalidStateError\<close> unless the future is pending.
\<close>

datatype future = Pending | Finished inbound | Cancelled

definition set_result :: "future \<Rightarrow> inbound \<Rightarrow> error + future" where
  "set_result fut data = (if fut = Pending then Inr (Finished data) else Inl InvalidStateError)"

text \<open>
  The connection: the dict \<^verbatim>\<open>_pending_responses\<close>, and the messages that went on to the
  handler part of the loop (handlers, policy update), in order.
\<close>

record connection =
  pending_responses :: "string \<rightharpoonup> future"
  passed_on :: "inbound list"

definition new_connection :: connection where
  "new_connection = \<lparr> pending_responses = Map.empty, passed_on = [] \<rparr>"

text \<open>
  The body of the loop of \<^verbatim>\<open>_message_loop\<close> for one message. A message with a
  \<^verbatim>\<open>request_id\<close> that is a key of the table resolves the future stored there and the
  loop continues; every other message goes on to the handlers. An exception leaves the
  \<^verbatim>\<open>async for\<close> and ends the loop.
\<close>

definition dispatch :: "connection \<Rightarrow> inbound \<Rightarrow> error + connection" where
  "dispatch conn data =
     (case in_request_id data of
        None \<Rightarrow> Inr (conn\<lparr>passed_on := passed_on conn @ [data]\<rparr>)
      | Some req_id \<Rightarrow>
          (case pending_responses conn req_id of
             None \<Rightarrow> Inr (conn\<lparr>passed_on := passed_on conn @ [data]\<rparr>)
           | Some fut \<Rightarrow>
               (case set_result fut data of
                  Inl e \<Rightarrow> Inl e
                | Inr fut' \<Rightarrow> Inr (conn\<lparr>pending_responses := (pending_responses conn)(req_id \<mapsto> fut')\<rparr>))))"

text \<open>
  The three moments of \<^verbatim>\<open>_request\<close>: it stores a new future under the request id and
  sends; when the timeout of \<^verbatim>\<open>wait_for\<close> fires, a future that is still pending is
  cancelled; when the coroutine runs again, its \<^verbatim>\<open>finally\<close> pops the entry.
\<close>

definition request_begin :: "string \<Rightarrow> connection \<Rightarrow> connection" where
  "request_begin req_id conn = conn\<lparr>pending_responses := (pending_responses conn)(req_id \<mapsto> Pending)\<rparr>"

definition request_timeout :: "string \<Rightarrow> connection \<Rightarrow> connection" where
  "request_timeout req_id conn =
     (if pending_responses conn req_id = Some Pending
      then conn\<lparr>pending_responses := (pending_responses conn)(req_id \<mapsto> Cancelled)\<rparr>
      else conn)"

definition request_finally :: "string \<Rightarrow> connection \<Rightarrow> connection" where
  "request_finally req_id conn = conn\<lparr>pending_responses := (pending_responses conn)(req_id := None)\<rparr>"

text \<open>
  The event loop runs one task at a time and switches at the awaits, so a run of the
  connection is a sequence of these events; it stops at the first exception in the
  dispatch loop.
\<close>

datatype event = Begin string | Receive inbound | TimeoutFires string | Resume string

fun occur :: "connection \<Rightarrow> event \<Rightarrow> error + connection" where
  "occur conn (Begin r) = Inr (request_begin r conn)"
| "occur conn (Receive data) = dispatch conn data"
| "occur conn (TimeoutFires r) = Inr (request_timeout r conn)"
| "occur conn (Resume r) = Inr (request_finally r conn)"

fun occur_all :: "connection \<Rightarrow> event list \<Rightarrow> error + connection" where
  "occur_all conn [] = Inr conn"
| "occur_all conn (e # es) = (case occur conn e of Inl err \<Rightarrow> Inl err | Inr conn' \<Rightarrow> occur_all conn' es)"

section \<open>Sample values\<close>

text \<open>
  A request for one worker with the permission \<^verbatim>\<open>files.read\<close>, a policy in trusted mode
  with room for one sub-agent, and the reply that approves a spawn request.
\<close>

definition worker_args :: spawn_args where
  "worker_args = \<lparr> arg_name = ''Worker'', arg_role = None, arg_description = None,
     arg_permissions = Some [[(''scope'', ''files.read'')]], arg_lifespan = ''task_bound'',
     arg_reason = None, arg_icon = None, arg_notify = True, new_id = ''sub_worker_a1b2c3'' \<rparr>"

definition trusted_cap_one :: PolicyConfig where
  "trusted_cap_one = default_policy\<lparr>auto_spawn_mode := ''trusted'', max_concurrent_sub_agents := 1\<rparr>"

definition approved :: response where
  "approved = Reply (Some ''approved'')"

text \<open>
  The handle of that worker, the registry after the worker was spawned directly under the
  trusted policy, and a reply to a confirmation request.
\<close>

definition worker :: SubAgent where
  "worker = new_sub_agent worker_args"

definition one_active :: registry where
  "one_active = snd (spawn trusted_cap_one worker_args empty_registry)"

text \<open>
  A request for the worker that asks for \<^verbatim>\<open>files.read\<close> and then for the forbidden
  \<^verbatim>\<open>system.shell\<close>.
\<close>

definition shell_permissions :: "permission list" where
  "shell_permissions = [[(''scope'', ''files.read'')], [(''scope'', ''system.shell'')]]"

definition shell_args :: spawn_args where
  "shell_args = worker_args\<lparr>arg_permissions := Some shell_permissions\<rparr>"

definition reply_cfm :: inbound where
  "reply_cfm = \<lparr> in_type = Some ''confirmation_response'',
     in_request_id = Some ''cfm_0123456789ab'', in_body = [] \<rparr>"

section \<open>Properties of auto-approval\<close>

lemma check_permissions_iff:
  "check_permissions cfg perms \<longleftrightarrow>
     (\<forall>perm \<in> set perms.
        scope_of perm \<notin> set (permissions_forbidden cfg) \<and>
        (auto_spawn_mode cfg = ''constrained'' \<longrightarrow> scope_of perm \<notin> set (permissions_ask cfg)))"
  by (induction perms) auto

text \<open>
  Claim C5. In the modes off and queue nothing is auto-approved; in the mode unrestricted
  everything is; in the modes trusted and constrained a request is approved exactly when no
  requested scope is forbidden and, in constrained mode only, no requested scope is in the
  ask set. An ask-scope alone never blocks approval in trusted mode.
\<close>

theorem would_auto_approve_modes:
  "(auto_spawn_mode cfg \<in> {''off'', ''queue''} \<longrightarrow> \<not> would_auto_approve cfg perms) \<and>
   (auto_spawn_mode cfg = ''unrestricted'' \<longrightarrow> would_auto_approve cfg perms) \<and>
   (auto_spawn_mode cfg = ''trusted'' \<longrightarrow>
      (would_auto_approve cfg perms \<longleftrightarrow>
         (\<forall>perm \<in> set perms. scope_of perm \<notin> set (permissions_forbidden cfg)))) \<and>
   (auto_spawn_mode cfg = ''constrained'' \<longrightarrow>
      (would_auto_approve cfg perms \<longleftrightarrow>
         (\<forall>perm \<in> set perms. scope_of perm \<notin> set (permissions_forbidden cfg) \<and>
                               scope_of perm \<notin> set (permissions_ask cfg))))"
  by (auto simp: would_auto_approve_def check_permissions_iff)

theorem would_auto_approve_modes_witness:
  "\<not> would_auto_approve (default_policy\<lparr>auto_spawn_mode := ''constrained''\<rparr>) [[(''scope'', ''files.write'')]] \<and>
   would_auto_approve (default_policy\<lparr>auto_spawn_mode := ''trusted''\<rparr>) [[(''scope'', ''files.write'')]] \<and>
   \<not> would_auto_approve (default_policy\<lparr>auto_spawn_mode := ''trusted''\<rparr>) [[(''scope'', ''system.shell'')]] \<and>
   \<not> would_auto_approve default_policy [] \<and>
   would_auto_approve (default_policy\<lparr>auto_spawn_mode := ''unrestricted''\<rparr>) [[(''scope'', ''system.shell'')]]"
  using would_auto_approve_modes [of "default_policy\<lparr>auto_spawn_mode := ''constrained''\<rparr>" "[[(''scope'', ''files.write'')]]"]
        would_auto_approve_modes [of "default_policy\<lparr>auto_spawn_mode := ''trusted''\<rparr>" "[[(''scope'', ''files.write'')]]"]
        would_auto_approve_modes [of "default_policy\<lparr>auto_spawn_mode := ''trusted''\<rparr>" "[[(''scope'', ''system.shell'')]]"]
        would_auto_approve_modes [of "default_policy" "[]"]
        would_auto_approve_modes [of "default_policy\<lparr>auto_spawn_mode := ''unrestricted''\<rparr>" "[[(''scope'', ''system.shell'')]]"]
  by (simp add: default_policy_def scope_of_def)

section \<open>Properties of the permission check\<close>

text \<open>
  Claim C1, as the claim states it, fails for the empty string as target: under the
  default policy \<^verbatim>\<open>is_allowed("files.read", "")\<close> is True although the empty path matches
  no pattern of the (empty) allow-list.
\<close>

theorem is_allowed_empty_target_counterexample:
  "\<not> (is_allowed id default_policy ''files.read'' (Some []) = Some True \<longleftrightarrow>
        is_path_allowed id default_policy [] = Some True \<and>
        is_path_forbidden id default_policy [] = Some False)"
  by (simp add: is_allowed_def is_path_allowed_def default_policy_def startswith_def truthy_def)

text \<open>
  Claim C1, amended. A forbidden permission is never allowed. A permission that is allowed
  and not forbidden, starts with \<^verbatim>\<open>files.\<close> and comes with a non-empty target is allowed
  exactly when the target matches the path allow-list and does not match the path
  forbid-list, and refused exactly when it misses the allow-list or matches both. An
  allowed, not forbidden permission is allowed in every other case (no such prefix, no
  target, or the empty target). A permission in neither set is not allowed.
\<close>

theorem is_allowed_cases:
  "(permission \<in> set (permissions_forbidden cfg) \<longrightarrow>
      is_allowed expanduser cfg permission target = Some False) \<and>
   (permission \<notin> set (permissions_forbidden cfg) \<and> permission \<in> set (permissions_allowed cfg) \<and>
    startswith permission ''files.'' \<and> target = Some t \<and> t \<noteq> [] \<longrightarrow>
      (is_allowed expanduser cfg permission target = Some True \<longleftrightarrow>
         is_path_allowed expanduser cfg t = Some True \<and>
         is_path_forbidden expanduser cfg t = Some False) \<and>
      (is_allowed expanduser cfg permission target = Some False \<longleftrightarrow>
         is_path_allowed expanduser cfg t = Some False \<or>
         is_path_allowed expanduser cfg t = Some True \<and>
         is_path_forbidden expanduser cfg t = Some True)) \<and>
   (permission \<notin> set (permissions_forbidden cfg) \<and> permission \<in> set (permissions_allowed cfg) \<and>
    \<not> (startswith permission ''files.'' \<and> truthy target) \<longrightarrow>
      is_allowed expanduser cfg permission target = Some True) \<and>
   (permission \<notin> set (permissions_forbidden cfg) \<and> permission \<notin> set (permissions_allowed cfg) \<longrightarrow>
      is_allowed expanduser cfg permission target = Some False)"
  by (auto simp: is_allowed_def truthy_def split: option.splits bool.splits)

theorem is_allowed_cases_witness:
  "is_path_allowed id (default_policy\<lparr>allowed_paths := [''/work/**'']\<rparr>) ''/work/a.txt'' = Some True \<and>
   is_path_forbidden id (default_policy\<lparr>allowed_paths := [''/work/**'']\<rparr>) ''/work/a.txt'' = Some False \<and>
   is_allowed id (default_policy\<lparr>allowed_paths := [''/work/**'']\<rparr>) ''files.read'' (Some ''/work/a.txt'') = Some True \<and>
   is_allowed id (default_policy\<lparr>allowed_paths := [''/work/**'']\<rparr>) ''files.delete'' (Some ''/work/a.txt'') = Some False \<and>
   is_allowed id (default_policy\<lparr>allowed_paths := [''/work/**'']\<rparr>) ''agent.message'' (Some ''/work/a.txt'') = Some True \<and>
   is_allowed id (default_policy\<lparr>allowed_paths := [''/work/**'']\<rparr>) ''files.write'' (Some ''/work/a.txt'') = Some False"
proof -
  let ?cfg = "default_policy\<lparr>allowed_paths := [''/work/**'']\<rparr>"
  have a: "is_path_allowed id ?cfg ''/work/a.txt'' = Some True"
    by (simp add: is_path_allowed_def default_policy_def match_glob_def re_match_def
        is_meta_def newline_def backslash_def)
  have f: "is_path_forbidden id ?cfg ''/work/a.txt'' = Some False"
    by (simp add: is_path_forbidden_def default_policy_def match_glob_def re_match_def
        is_meta_def newline_def backslash_def)
  from a f
    is_allowed_cases [where permission = "''files.read''" and cfg = ?cfg and expanduser = id
      and target = "Some ''/work/a.txt''" and t = "''/work/a.txt''"]
    is_allowed_cases [where permission = "''files.delete''" and cfg = ?cfg and expanduser = id
      and target = "Some ''/work/a.txt''" and t = "''/work/a.txt''"]
    is_allowed_cases [where permission = "''agent.message''" and cfg = ?cfg and expanduser = id
      and target = "Some ''/work/a.txt''" and t = "''/work/a.txt''"]
    is_allowed_cases [where permission = "''files.write''" and cfg = ?cfg and expanduser = id
      and target = "Some ''/work/a.txt''" and t = "''/work/a.txt''"]
  show ?thesis
    by (simp add: default_policy_def startswith_def truthy_def)
qed

text \<open>
  Claim C10, as the claim states it, fails for a permission that is in the allowed set and
  in the forbidden set: the forbidden set is looked at first.
\<close>

theorem is_allowed_no_target_counterexample:
  "''files.delete'' \<in> set (permissions_allowed (default_policy\<lparr>permissions_allowed := [''files.delete'']\<rparr>)) \<and>
   startswith ''files.delete'' ''files.'' \<and>
   is_allowed id (default_policy\<lparr>permissions_allowed := [''files.delete'']\<rparr>) ''files.delete'' None = Some False"
  by (simp add: is_allowed_def default_policy_def startswith_def)

text \<open>
  Claim C10, amended. For every permission that is in the allowed set and not in the
  forbidden set, \<^verbatim>\<open>is_allowed\<close> without a target is True whatever the path allow-list and
  the path forbid-list of the policy are: the path lists are read only when a target is
  given.
\<close>

theorem is_allowed_no_target:
  assumes "permission \<in> set (permissions_allowed cfg)"
    and "permission \<notin> set (permissions_forbidden cfg)"
  shows "is_allowed expanduser (cfg\<lparr>allowed_paths := ap, forbidden_paths := fp\<rparr>) permission None = Some True"
  using assms by (simp add: is_allowed_def truthy_def)

theorem is_allowed_no_target_witness:
  "is_allowed id (default_policy\<lparr>allowed_paths := [], forbidden_paths := [''**'']\<rparr>) ''files.read'' None = Some True \<and>
   is_path_forbidden id (default_policy\<lparr>allowed_paths := [], forbidden_paths := [''**'']\<rparr>) ''/work/a.txt'' = Some True \<and>
   is_allowed id (default_policy\<lparr>allowed_paths := [], forbidden_paths := [''**'']\<rparr>) ''files.read'' (Some ''/work/a.txt'') = Some False"
proof -
  have a: "''files.read'' \<in> set (permissions_allowed default_policy)"
    by (simp add: default_policy_def)
  have f: "''files.read'' \<notin> set (permissions_forbidden default_policy)"
    by (simp add: default_policy_def)
  have "is_allowed id (default_policy\<lparr>allowed_paths := [], forbidden_paths := [''**'']\<rparr>) ''files.read'' None = Some True"
    by (rule is_allowed_no_target [OF a f])
  moreover have "is_path_forbidden id (default_policy\<lparr>allowed_paths := [], forbidden_paths := [''**'']\<rparr>) ''/work/a.txt'' = Some True"
    by (simp add: is_path_forbidden_def match_glob_def re_match_def is_meta_def newline_def backslash_def)
  moreover have "is_allowed id (default_policy\<lparr>allowed_paths := [], forbidden_paths := [''**'']\<rparr>) ''files.read'' (Some ''/work/a.txt'') = Some False"
    by (simp add: is_allowed_def is_path_allowed_def default_policy_def startswith_def truthy_def)
  ultimately show ?thesis by simp
qed

section \<open>Properties of direct spawning\<close>

lemma spawn_via_link_up: "spawn_via link_up cfg a reg = spawn cfg a reg"
  by (simp add: spawn_via_def spawn_def send_via_def link_up_def Let_def)

lemma spawn_via_success:
  assumes "would_auto_approve cfg (perms_or_empty (arg_permissions a))"
    and "delivers (spawn_message a)"
    and "arg_notify a \<longrightarrow> delivers (spawned_notification a)"
  shows "fst (spawn_via delivers cfg a reg) = Inr (new_sub_agent a) \<and>
         active (snd (spawn_via delivers cfg a reg)) = active reg @ [new_sub_agent a] \<and>
         spawned_this_hour (snd (spawn_via delivers cfg a reg)) = spawned_this_hour reg + 1 \<and>
         spawn_message a \<in> set (sent (snd (spawn_via delivers cfg a reg)))"
  using assms by (auto simp: spawn_via_def send_via_def send_def Let_def)

lemma spawn_via_raises:
  "fst (spawn_via delivers cfg a reg) = Inl PermissionError \<longleftrightarrow>
     \<not> would_auto_approve cfg (perms_or_empty (arg_permissions a))"
proof (cases "would_auto_approve cfg (perms_or_empty (arg_permissions a))")
  case True
  then show ?thesis
    by (simp add: spawn_via_def send_via_def Let_def)
next
  case False
  then show ?thesis
    by (simp add: spawn_via_def)
qed

lemma spawn_via_unchanged:
  assumes "fst (spawn_via delivers cfg a reg) = Inl PermissionError"
  shows "snd (spawn_via delivers cfg a reg) = reg"
proof -
  from assms have "\<not> would_auto_approve cfg (perms_or_empty (arg_permissions a))"
    by (simp add: spawn_via_raises)
  then show ?thesis by (simp add: spawn_via_def)
qed

text \<open>
  Claim C6. For every permission list \<open>P\<close> passed as \<^verbatim>\<open>permissions\<close>, whatever the
  connection does, \<^verbatim>\<open>agents.spawn\<close> raises \<^verbatim>\<open>PermissionError\<close> exactly when
  \<^verbatim>\<open>would_auto_approve(P)\<close> is False (for the default \<^verbatim>\<open>None\<close>: when it is False for the
  empty list). When it raises \<^verbatim>\<open>PermissionError\<close> the registry is what it was: the active
  list, the hourly counter and the messages sent are unchanged, and no handle is returned.
\<close>

theorem spawn_permission_error:
  "(arg_permissions a = Some P \<longrightarrow>
      (fst (spawn_via delivers cfg a reg) = Inl PermissionError \<longleftrightarrow> \<not> would_auto_approve cfg P)) \<and>
   (arg_permissions a = None \<longrightarrow>
      (fst (spawn_via delivers cfg a reg) = Inl PermissionError \<longleftrightarrow> \<not> would_auto_approve cfg [])) \<and>
   (fst (spawn_via delivers cfg a reg) = Inl PermissionError \<longrightarrow>
      snd (spawn_via delivers cfg a reg) = reg \<and>
      active (snd (spawn_via delivers cfg a reg)) = active reg \<and>
      spawned_this_hour (snd (spawn_via delivers cfg a reg)) = spawned_this_hour reg \<and>
      sent (snd (spawn_via delivers cfg a reg)) = sent reg)"
proof (intro conjI impI)
  assume "arg_permissions a = Some P"
  then show "fst (spawn_via delivers cfg a reg) = Inl PermissionError \<longleftrightarrow> \<not> would_auto_approve cfg P"
    by (simp add: spawn_via_raises perms_or_empty_def)
next
  assume "arg_permissions a = None"
  then show "fst (spawn_via delivers cfg a reg) = Inl PermissionError \<longleftrightarrow> \<not> would_auto_approve cfg []"
    by (simp add: spawn_via_raises perms_or_empty_def)
next
  assume r: "fst (spawn_via delivers cfg a reg) = Inl PermissionError"
  show "snd (spawn_via delivers cfg a reg) = reg"
    by (rule spawn_via_unchanged [OF r])
  then show "active (snd (spawn_via delivers cfg a reg)) = active reg"
    and "spawned_this_hour (snd (spawn_via delivers cfg a reg)) = spawned_this_hour reg"
    and "sent (snd (spawn_via delivers cfg a reg)) = sent reg"
    by simp_all
qed

theorem spawn_permission_error_witness:
  "fst (spawn_via link_up trusted_cap_one shell_args empty_registry) = Inl PermissionError \<and>
   snd (spawn_via link_up trusted_cap_one shell_args empty_registry) = empty_registry \<and>
   fst (spawn_via link_up trusted_cap_one worker_args empty_registry) = Inr worker \<and>
   fst (spawn_via link_down trusted_cap_one worker_args empty_registry) = Inl ConnectionClosed"
proof -
  have p: "arg_permissions shell_args = Some shell_permissions"
    by (simp add: shell_args_def)
  have no: "\<not> would_auto_approve trusted_cap_one shell_permissions"
    by (simp add: would_auto_approve_def trusted_cap_one_def default_policy_def
        shell_permissions_def scope_of_def)
  from p no
    spawn_permission_error [where a = shell_args and P = shell_permissions
      and delivers = link_up and cfg = trusted_cap_one and reg = empty_registry]
  have raised: "fst (spawn_via link_up trusted_cap_one shell_args empty_registry) = Inl PermissionError \<and>
      snd (spawn_via link_up trusted_cap_one shell_args empty_registry) = empty_registry"
    by blast
  have yes: "would_auto_approve trusted_cap_one (perms_or_empty (arg_permissions worker_args))"
    by (simp add: would_auto_approve_def trusted_cap_one_def default_policy_def worker_args_def
        perms_or_empty_def scope_of_def)
  have up: "fst (spawn_via link_up trusted_cap_one worker_args empty_registry) = Inr worker"
    using yes by (simp add: spawn_via_def send_via_def link_up_def Let_def worker_def)
  have down: "fst (spawn_via link_down trusted_cap_one worker_args empty_registry) = Inl ConnectionClosed"
    using yes by (simp add: spawn_via_def send_via_def link_down_def)
  from raised up down show ?thesis by simp
qed

section \<open>The concurrency cap\<close>

text \<open>
  Claim C2, as the claim states it, fails: neither \<^verbatim>\<open>request_spawn\<close> nor \<^verbatim>\<open>spawn\<close> looks
  at the cap. Under the default policy, whose cap is five, six approved spawn requests
  leave six handles in the active list.
\<close>

theorem active_exceeds_cap_counterexample:
  "\<not> active_count (run default_policy empty_registry
        [RequestSpawn worker_args approved, RequestSpawn worker_args approved,
         RequestSpawn worker_args approved, RequestSpawn worker_args approved,
         RequestSpawn worker_args approved, RequestSpawn worker_args approved])
      \<le> max_concurrent_sub_agents default_policy"
  by (simp add: run_def request_spawn_def approved_def send_def active_count_def
      empty_registry_def default_policy_def Let_def)

lemma active_count_nonneg: "0 \<le> active_count reg"
  by (simp add: active_count_def)

lemma terminate_each_active: "active (terminate_each subs reason reg) = active reg"
  by (induction subs arbitrary: reg) (simp_all add: terminate_def send_def)

lemma guarded_step_within_cap:
  assumes "auto_spawn_mode cfg \<noteq> ''off''"
    and "active_count reg \<le> max_concurrent_sub_agents cfg"
  shows "active_count (guarded_step cfg reg op) \<le> max_concurrent_sub_agents cfg"
proof (cases op)
  case (RequestSpawn a resp)
  with assms show ?thesis
    by (auto simp: guarded_step_def can_spawn_def request_spawn_def send_def active_count_def Let_def
        split: if_splits)
next
  case (Spawn a)
  with assms show ?thesis
    by (auto simp: guarded_step_def can_spawn_def spawn_def send_def active_count_def Let_def
        split: if_splits)
next
  case (Terminate sub reason)
  with assms show ?thesis
    by (simp add: guarded_step_def terminate_def send_def active_count_def)
next
  case (KillAll reason)
  with assms active_count_nonneg [of reg] show ?thesis
    by (simp add: guarded_step_def kill_all_def active_count_def)
next
  case PauseSpawning
  with assms show ?thesis
    by (simp add: guarded_step_def pause_spawning_def active_count_def)
qed

text \<open>
  Claim C2, amended. Under a fixed policy whose mode is not off, a client that performs
  the operations one after the other and calls \<^verbatim>\<open>request_spawn\<close> and \<^verbatim>\<open>spawn\<close> only when
  \<^verbatim>\<open>can_spawn()\<close> is True never has more handles in the active list than the cap, from
  any registry that respects the cap.
\<close>

theorem guarded_run_within_cap:
  assumes "auto_spawn_mode cfg \<noteq> ''off''"
    and "active_count reg \<le> max_concurrent_sub_agents cfg"
  shows "active_count (guarded_run cfg reg ops) \<le> max_concurrent_sub_agents cfg"
  using assms(2) unfolding guarded_run_def
proof (induction ops arbitrary: reg)
  case Nil
  then show ?case by simp
next
  case (Cons op ops)
  from guarded_step_within_cap [OF assms(1) Cons.prems]
  have "active_count (guarded_step cfg reg op) \<le> max_concurrent_sub_agents cfg" .
  from Cons.IH [OF this] show ?case by simp
qed

theorem guarded_run_within_cap_witness:
  "active_count (guarded_run trusted_cap_one empty_registry [Spawn worker_args, Spawn worker_args]) \<le> 1 \<and>
   active (guarded_run trusted_cap_one empty_registry [Spawn worker_args, Spawn worker_args])
     = [new_sub_agent worker_args] \<and>
   active_count (run trusted_cap_one empty_registry [Spawn worker_args, Spawn worker_args]) = 2"
proof -
  have m: "auto_spawn_mode trusted_cap_one \<noteq> ''off''"
    by (simp add: trusted_cap_one_def)
  have c: "active_count empty_registry \<le> max_concurrent_sub_agents trusted_cap_one"
    by (simp add: trusted_cap_one_def active_count_def empty_registry_def)
  have yes: "would_auto_approve trusted_cap_one (perms_or_empty (arg_permissions worker_args))"
    by (simp add: would_auto_approve_def trusted_cap_one_def default_policy_def worker_args_def
        perms_or_empty_def scope_of_def)
  from guarded_run_within_cap [OF m c, of "[Spawn worker_args, Spawn worker_args]"]
  have "active_count (guarded_run trusted_cap_one empty_registry [Spawn worker_args, Spawn worker_args]) \<le> 1"
    by (simp add: trusted_cap_one_def)
  moreover have "active (guarded_run trusted_cap_one empty_registry [Spawn worker_args, Spawn worker_args])
     = [new_sub_agent worker_args]"
    using yes
    by (simp add: guarded_run_def guarded_step_def can_spawn_def spawn_def send_def Let_def
        empty_registry_def trusted_cap_one_def default_policy_def)
  moreover have "active_count (run trusted_cap_one empty_registry [Spawn worker_args, Spawn worker_args]) = 2"
    using yes by (simp add: run_def spawn_def send_def Let_def empty_registry_def active_count_def)
  ultimately show ?thesis by simp
qed

section \<open>Termination of a sub-agent\<close>

lemma terminate_changes_only_sent:
  "active (terminate sub reason reg) = active reg \<and>
   spawned_this_hour (terminate sub reason reg) = spawned_this_hour reg \<and>
   can_spawn cfg (terminate sub reason reg) = can_spawn cfg reg \<and>
   sent (terminate sub reason reg) = sent reg @ [terminate_message sub reason]"
  by (simp add: terminate_def send_def can_spawn_def)

text \<open>
  Claim C3 says that \<^verbatim>\<open>terminate\<close> sets the handle to terminated, removes it from the
  active list and so frees a slot, and that a second call does nothing. The source does
  none of this. With one worker active under a cap of one: after \<^verbatim>\<open>terminate\<close> the worker
  is still the one active handle, its status is still \<^verbatim>\<open>online\<close>, the active count is
  what it was and \<^verbatim>\<open>can_spawn()\<close> is still False; a second \<^verbatim>\<open>terminate\<close> sends the
  message a second time. \<^verbatim>\<open>kill_all\<close>, in contrast, empties the active list.
\<close>

theorem terminate_keeps_handle_active:
  "active one_active = [worker] \<and>
   \<not> can_spawn trusted_cap_one one_active \<and>
   active (terminate worker ''Task complete'' one_active) = [worker] \<and>
   sub_status (hd (active (terminate worker ''Task complete'' one_active))) = ''online'' \<and>
   active_count (terminate worker ''Task complete'' one_active) = active_count one_active \<and>
   \<not> can_spawn trusted_cap_one (terminate worker ''Task complete'' one_active) \<and>
   sent (terminate worker ''Task complete'' (terminate worker ''Task complete'' one_active))
     = sent (terminate worker ''Task complete'' one_active) @ [terminate_message worker ''Task complete''] \<and>
   active (kill_all ''User requested'' one_active) = []"
proof -
  have yes: "would_auto_approve trusted_cap_one (perms_or_empty (arg_permissions worker_args))"
    by (simp add: would_auto_approve_def trusted_cap_one_def default_policy_def worker_args_def
        perms_or_empty_def scope_of_def)
  have act: "active one_active = [worker]"
    using yes by (simp add: one_active_def worker_def spawn_def send_def Let_def empty_registry_def)
  have cnt: "spawned_this_hour one_active = 1"
    using yes by (simp add: one_active_def spawn_def send_def Let_def empty_registry_def)
  have st: "sub_status worker = ''online''"
    by (simp add: worker_def new_sub_agent_def)
  from act cnt st show ?thesis
    by (simp add: terminate_def send_def can_spawn_def active_count_def kill_all_def
        trusted_cap_one_def default_policy_def)
qed

section \<open>The pause flag\<close>

lemma pause_spawning_unread:
  "can_spawn cfg (pause_spawning reg) = can_spawn cfg reg \<and>
   fst (request_spawn a resp (pause_spawning reg)) = fst (request_spawn a resp reg) \<and>
   active (pause_spawning reg) = active reg"
  by (simp add: can_spawn_def pause_spawning_def request_spawn_def send_def Let_def)

text \<open>
  Claim C7 says that after \<^verbatim>\<open>pause_spawning()\<close> every \<^verbatim>\<open>can_spawn()\<close> is False and every
  \<^verbatim>\<open>request_spawn\<close> refuses. In the source nothing reads the flag: on a fresh registry
  with the flag set, \<^verbatim>\<open>can_spawn()\<close> is True under the default policy and under the
  trusted one, and an approved \<^verbatim>\<open>request_spawn\<close> returns the new handle and makes it
  active.
\<close>

theorem pause_spawning_not_honoured:
  "spawning_paused (pause_spawning empty_registry) \<and>
   can_spawn default_policy (pause_spawning empty_registry) \<and>
   can_spawn trusted_cap_one (pause_spawning empty_registry) \<and>
   fst (request_spawn worker_args approved (pause_spawning empty_registry)) = Some worker \<and>
   active (snd (request_spawn worker_args approved (pause_spawning empty_registry))) = [worker]"
  by (simp add: pause_spawning_def empty_registry_def can_spawn_def default_policy_def trusted_cap_one_def
      request_spawn_def approved_def send_def Let_def worker_def)

section \<open>The command allow-list\<close>

text \<open>
  Claim C8 says that \<^verbatim>\<open>is_command_allowed\<close> returns False for a command of blanks only.
  The source guards the empty string but not a string of blanks: its split is empty and
  the index raises \<^verbatim>\<open>IndexError\<close>.
\<close>

theorem is_command_allowed_blank:
  "is_command_allowed default_policy '' '' = Inl IndexError \<and>
   is_command_allowed default_policy [CHR 0x09, CHR '' ''] = Inl IndexError"
  by (simp add: is_command_allowed_def split_def is_space_def)

lemma split_from_tokens:
  "split_from cur s \<noteq> [] \<longleftrightarrow> cur \<noteq> [] \<or> (\<exists>c \<in> set s. \<not> is_space c)"
  by (induction s arbitrary: cur) auto

text \<open>
  For a command with at least one character that is not a blank, the result is the
  membership of its first token in the allow-list.
\<close>

lemma is_command_allowed_with_token:
  assumes "\<exists>c \<in> set command. \<not> is_space c"
  shows "is_command_allowed cfg command = Inr (hd (split command) \<in> set (allowed_commands cfg))"
proof -
  from assms have "split command \<noteq> []"
    by (simp add: split_def split_from_tokens)
  moreover from assms have "command \<noteq> []" by auto
  ultimately show ?thesis
    by (auto simp: is_command_allowed_def split: list.splits)
qed

lemma is_command_allowed_ls:
  "is_command_allowed (default_policy\<lparr>allowed_commands := [''ls'']\<rparr>) ''  ls -la /tmp'' = Inr True"
  by (simp add: is_command_allowed_def split_def is_space_def)

section \<open>Resolving a pending request\<close>

text \<open>
  Claim C4 says that resolving the completion slot of a request never raises an error that
  stops the dispatch loop, also for two replies with the same request id and for a reply
  that races with the timeout. In the source the entry stays in the table until the
  coroutine of \<^verbatim>\<open>_request\<close> runs again, and the loop calls \<^verbatim>\<open>set_result\<close> without
  asking whether the future is still pending: a second reply that is dispatched before
  that, or a reply dispatched after the timeout has cancelled the future, raises
  \<^verbatim>\<open>InvalidStateError\<close> in the loop.
\<close>

theorem duplicate_reply_stops_loop:
  "occur_all new_connection
     [Begin ''cfm_0123456789ab'', Receive reply_cfm, Receive reply_cfm] = Inl InvalidStateError \<and>
   occur_all new_connection
     [Begin ''cfm_0123456789ab'', TimeoutFires ''cfm_0123456789ab'', Receive reply_cfm] = Inl InvalidStateError"
  by (simp add: new_connection_def request_begin_def request_timeout_def dispatch_def set_result_def reply_cfm_def)

text \<open>
  When the coroutine has run in between, the second reply finds no entry and goes on to
  the handlers. A slot that holds a result keeps it until the entry is removed.
\<close>

lemma reply_after_resume_passed_on:
  "\<exists>conn. occur_all new_connection
     [Begin ''cfm_0123456789ab'', Receive reply_cfm, Resume ''cfm_0123456789ab'', Receive reply_cfm] = Inr conn \<and>
     passed_on conn = [reply_cfm]"
  by (simp add: new_connection_def request_begin_def request_finally_def dispatch_def set_result_def reply_cfm_def)

lemma resolved_once:
  assumes "pending_responses conn r = Some (Finished d)"
    and "occur conn e = Inr conn'"
    and "e \<noteq> Begin r"
  shows "pending_responses conn' r = Some (Finished d) \<or> pending_responses conn' r = None"
  using assms
  by (cases e)
     (auto simp: dispatch_def set_result_def request_begin_def request_timeout_def request_finally_def
       split: option.splits if_splits sum.splits)

section \<open>Properties of the glob matcher\<close>

text \<open>
  Claim C9 says that \<^verbatim>\<open>**\<close> matches any run of characters and that the match is
  anchored to the whole path. The source matches with \<^verbatim>\<open>.*\<close> between \<^verbatim>\<open>^\<close> and \<^verbatim>\<open>$\<close>
  and no flags, so a run with a line feed is not matched and a line feed at the end of
  the path is ignored: a file below \<^verbatim>\<open>secrets\<close> whose name contains a line feed does not
  match \<^verbatim>\<open>**/secrets/**\<close>, and the path \<^verbatim>\<open>/srv/.env\<close> followed by a line feed matches
  \<^verbatim>\<open>**/.env\<close>.
\<close>

theorem match_glob_newline_path:
  "match_glob (''/home/u/secrets/a'' @ [newline] @ ''b'') ''**/secrets/**'' = Some False \<and>
   match_glob (''/srv/.env'' @ [newline]) ''**/.env'' = Some True"
  by (simp add: match_glob_def re_match_def is_meta_def newline_def backslash_def)

text \<open>The paths that the claim names are matched as it says.\<close>

lemma match_glob_secrets_examples:
  "match_glob ''/home/u/secrets/x'' ''**/secrets/**'' = Some True \<and>
   match_glob ''/home/u/a/secrets/b/c'' ''**/secrets/**'' = Some True \<and>
   match_glob ''/home/u/secretsfoo'' ''**/secrets/**'' = Some False \<and>
   match_glob ''u/secrets/x'' ''*/secrets/*'' = Some True \<and>
   match_glob ''/home/u/secrets/x'' ''*/secrets/*'' = Some False \<and>
   match_glob ''u/secrets/b/c'' ''*/secrets/*'' = Some False"
  by (simp add: match_glob_def re_match_def is_meta_def newline_def backslash_def)

text \<open>
  What the matcher decides for the two patterns of the claim, for every path. A starred
  item takes a prefix free of its excluded character; a run of ordinary characters takes
  exactly itself.
\<close>

lemma match_no_slash_star:
  "match_toks (NoSlashStar # ts) s \<longleftrightarrow>
     (\<exists>x y. s = x @ y \<and> CHR ''/'' \<notin> set x \<and> match_toks ts y)"
proof (induction s)
  case Nil
  then show ?case by simp
next
  case (Cons c s)
  show ?case
  proof
    assume "match_toks (NoSlashStar # ts) (c # s)"
    then consider "match_toks ts (c # s)" | "c \<noteq> CHR ''/''" "match_toks (NoSlashStar # ts) s"
      by auto
    then show "\<exists>x y. c # s = x @ y \<and> CHR ''/'' \<notin> set x \<and> match_toks ts y"
    proof cases
      case 1
      then have "c # s = [] @ (c # s) \<and> CHR ''/'' \<notin> set [] \<and> match_toks ts (c # s)" by simp
      then show ?thesis by blast
    next
      case 2
      with Cons.IH obtain x y where "s = x @ y" "CHR ''/'' \<notin> set x" "match_toks ts y" by blast
      with 2 have "c # s = (c # x) @ y \<and> CHR ''/'' \<notin> set (c # x) \<and> match_toks ts y" by simp
      then show ?thesis by blast
    qed
  next
    assume "\<exists>x y. c # s = x @ y \<and> CHR ''/'' \<notin> set x \<and> match_toks ts y"
    then obtain x y where xy: "c # s = x @ y" "CHR ''/'' \<notin> set x" "match_toks ts y" by blast
    show "match_toks (NoSlashStar # ts) (c # s)"
    proof (cases x)
      case Nil
      with xy show ?thesis by simp
    next
      case (Cons a x')
      with xy have "c = a" "s = x' @ y" "CHR ''/'' \<notin> set x'" "a \<noteq> CHR ''/''" by auto
      with xy Cons.IH have "match_toks (NoSlashStar # ts) s" by blast
      with \<open>c = a\<close> \<open>a \<noteq> CHR ''/''\<close> show ?thesis by simp
    qed
  qed
qed

lemma match_dot_star:
  "match_toks (DotStar # ts) s \<longleftrightarrow>
     (\<exists>x y. s = x @ y \<and> newline \<notin> set x \<and> match_toks ts y)"
proof (induction s)
  case Nil
  then show ?case by simp
next
  case (Cons c s)
  show ?case
  proof
    assume "match_toks (DotStar # ts) (c # s)"
    then consider "match_toks ts (c # s)" | "c \<noteq> newline" "match_toks (DotStar # ts) s"
      by auto
    then show "\<exists>x y. c # s = x @ y \<and> newline \<notin> set x \<and> match_toks ts y"
    proof cases
      case 1
      then have "c # s = [] @ (c # s) \<and> newline \<notin> set [] \<and> match_toks ts (c # s)" by simp
      then show ?thesis by blast
    next
      case 2
      with Cons.IH obtain x y where "s = x @ y" "newline \<notin> set x" "match_toks ts y" by blast
      with 2 have "c # s = (c # x) @ y \<and> newline \<notin> set (c # x) \<and> match_toks ts y" by simp
      then show ?thesis by blast
    qed
  next
    assume "\<exists>x y. c # s = x @ y \<and> newline \<notin> set x \<and> match_toks ts y"
    then obtain x y where xy: "c # s = x @ y" "newline \<notin> set x" "match_toks ts y" by blast
    show "match_toks (DotStar # ts) (c # s)"
    proof (cases x)
      case Nil
      with xy show ?thesis by simp
    next
      case (Cons a x')
      with xy have "c = a" "s = x' @ y" "newline \<notin> set x'" "a \<noteq> newline" by auto
      with xy Cons.IH have "match_toks (DotStar # ts) s" by blast
      with \<open>c = a\<close> \<open>a \<noteq> newline\<close> show ?thesis by simp
    qed
  qed
qed

lemma match_lits:
  "match_toks (map Lit w @ ts) s \<longleftrightarrow> (\<exists>y. s = w @ y \<and> match_toks ts y)"
  by (induction w arbitrary: s) (auto split: list.splits)

lemma match_last_no_slash_star:
  "match_toks [NoSlashStar] s \<longleftrightarrow> CHR ''/'' \<notin> set s"
proof
  assume "match_toks [NoSlashStar] s"
  then obtain x y where "s = x @ y" "CHR ''/'' \<notin> set x" "match_toks [] y"
    unfolding match_no_slash_star by blast
  then show "CHR ''/'' \<notin> set s"
    by (auto simp: newline_def)
next
  assume "CHR ''/'' \<notin> set s"
  then have "s = s @ [] \<and> CHR ''/'' \<notin> set s \<and> match_toks [] []" by simp
  then show "match_toks [NoSlashStar] s"
    unfolding match_no_slash_star by blast
qed

lemma match_last_dot_star:
  "match_toks [DotStar] s \<longleftrightarrow>
     newline \<notin> set s \<or> (\<exists>z. s = z @ [newline] \<and> newline \<notin> set z)"
proof
  assume "match_toks [DotStar] s"
  then obtain x y where xy: "s = x @ y" "newline \<notin> set x" "match_toks [] y"
    unfolding match_dot_star by blast
  from xy(3) have "y = [] \<or> y = [newline]" by simp
  with xy(1,2) show "newline \<notin> set s \<or> (\<exists>z. s = z @ [newline] \<and> newline \<notin> set z)"
    by auto
next
  assume "newline \<notin> set s \<or> (\<exists>z. s = z @ [newline] \<and> newline \<notin> set z)"
  then show "match_toks [DotStar] s"
  proof
    assume "newline \<notin> set s"
    then have "s = s @ [] \<and> newline \<notin> set s \<and> match_toks [] []" by simp
    then show ?thesis unfolding match_dot_star by blast
  next
    assume "\<exists>z. s = z @ [newline] \<and> newline \<notin> set z"
    then obtain z where "s = z @ [newline]" "newline \<notin> set z" by blast
    then have "s = z @ [newline] \<and> newline \<notin> set z \<and> match_toks [] [newline]" by simp
    then show ?thesis unfolding match_dot_star by blast
  qed
qed

lemma one_level_tokens:
  "match_glob path ''*/secrets/*'' =
     Some (match_toks (NoSlashStar # map Lit ''/secrets/'' @ [NoSlashStar]) path)"
  by (simp add: match_glob_def re_match_def is_meta_def backslash_def)

lemma any_depth_tokens:
  "match_glob path ''**/secrets/**'' =
     Some (match_toks (DotStar # map Lit ''/secrets/'' @ [DotStar]) path)"
  by (simp add: match_glob_def re_match_def is_meta_def backslash_def)

lemma match_between_no_slash_stars:
  "match_toks (NoSlashStar # map Lit w @ [NoSlashStar]) path \<longleftrightarrow>
     (\<exists>x y. path = x @ w @ y \<and> CHR ''/'' \<notin> set x \<and> match_toks [NoSlashStar] y)"
proof
  assume "match_toks (NoSlashStar # map Lit w @ [NoSlashStar]) path"
  then obtain x y where xy: "path = x @ y" "CHR ''/'' \<notin> set x"
      "match_toks (map Lit w @ [NoSlashStar]) y"
    unfolding match_no_slash_star by (elim exE conjE)
  from xy(3) obtain z where z: "y = w @ z" "match_toks [NoSlashStar] z"
    unfolding match_lits by (elim exE conjE)
  from xy(1,2) z have "path = x @ w @ z \<and> CHR ''/'' \<notin> set x \<and> match_toks [NoSlashStar] z"
    by simp
  then have "\<exists>y. path = x @ w @ y \<and> CHR ''/'' \<notin> set x \<and> match_toks [NoSlashStar] y"
    by (rule exI)
  then show "\<exists>x y. path = x @ w @ y \<and> CHR ''/'' \<notin> set x \<and> match_toks [NoSlashStar] y"
    by (rule exI)
next
  assume "\<exists>x y. path = x @ w @ y \<and> CHR ''/'' \<notin> set x \<and> match_toks [NoSlashStar] y"
  then obtain x z where xz: "path = x @ w @ z" "CHR ''/'' \<notin> set x" "match_toks [NoSlashStar] z"
    by (elim exE conjE)
  from xz(3) have "w @ z = w @ z \<and> match_toks [NoSlashStar] z" by simp
  then have "\<exists>y. w @ z = w @ y \<and> match_toks [NoSlashStar] y" by (rule exI)
  then have "match_toks (map Lit w @ [NoSlashStar]) (w @ z)"
    unfolding match_lits .
  with xz(1,2) have "path = x @ (w @ z) \<and> CHR ''/'' \<notin> set x \<and>
      match_toks (map Lit w @ [NoSlashStar]) (w @ z)"
    by simp
  then have "\<exists>y. path = x @ y \<and> CHR ''/'' \<notin> set x \<and> match_toks (map Lit w @ [NoSlashStar]) y"
    by (rule exI)
  then have "\<exists>x y. path = x @ y \<and> CHR ''/'' \<notin> set x \<and> match_toks (map Lit w @ [NoSlashStar]) y"
    by (rule exI)
  then show "match_toks (NoSlashStar # map Lit w @ [NoSlashStar]) path"
    unfolding match_no_slash_star .
qed

lemma match_between_dot_stars:
  "match_toks (DotStar # map Lit w @ [DotStar]) path \<longleftrightarrow>
     (\<exists>x y. path = x @ w @ y \<and> newline \<notin> set x \<and> match_toks [DotStar] y)"
proof
  assume "match_toks (DotStar # map Lit w @ [DotStar]) path"
  then obtain x y where xy: "path = x @ y" "newline \<notin> set x"
      "match_toks (map Lit w @ [DotStar]) y"
    unfolding match_dot_star by (elim exE conjE)
  from xy(3) obtain z where z: "y = w @ z" "match_toks [DotStar] z"
    unfolding match_lits by (elim exE conjE)
  from xy(1,2) z have "path = x @ w @ z \<and> newline \<notin> set x \<and> match_toks [DotStar] z"
    by simp
  then have "\<exists>y. path = x @ w @ y \<and> newline \<notin> set x \<and> match_toks [DotStar] y"
    by (rule exI)
  then show "\<exists>x y. path = x @ w @ y \<and> newline \<notin> set x \<and> match_toks [DotStar] y"
    by (rule exI)
next
  assume "\<exists>x y. path = x @ w @ y \<and> newline \<notin> set x \<and> match_toks [DotStar] y"
  then obtain x z where xz: "path = x @ w @ z" "newline \<notin> set x" "match_toks [DotStar] z"
    by (elim exE conjE)
  from xz(3) have "w @ z = w @ z \<and> match_toks [DotStar] z" by simp
  then have "\<exists>y. w @ z = w @ y \<and> match_toks [DotStar] y" by (rule exI)
  then have "match_toks (map Lit w @ [DotStar]) (w @ z)"
    unfolding match_lits .
  with xz(1,2) have "path = x @ (w @ z) \<and> newline \<notin> set x \<and>
      match_toks (map Lit w @ [DotStar]) (w @ z)"
    by simp
  then have "\<exists>y. path = x @ y \<and> newline \<notin> set x \<and> match_toks (map Lit w @ [DotStar]) y"
    by (rule exI)
  then have "\<exists>x y. path = x @ y \<and> newline \<notin> set x \<and> match_toks (map Lit w @ [DotStar]) y"
    by (rule exI)
  then show "match_toks (DotStar # map Lit w @ [DotStar]) path"
    unfolding match_dot_star .
qed

text \<open>
  The pattern \<^verbatim>\<open>*/secrets/*\<close> matches exactly the paths with one segment, possibly
  empty, before \<^verbatim>\<open>/secrets/\<close> and one after it.
\<close>

lemma match_glob_one_level:
  "match_glob path ''*/secrets/*'' =
     Some (\<exists>x y. path = x @ ''/secrets/'' @ y \<and> CHR ''/'' \<notin> set x \<and> CHR ''/'' \<notin> set y)"
  by (simp only: one_level_tokens match_between_no_slash_stars match_last_no_slash_star)

text \<open>
  The pattern \<^verbatim>\<open>**/secrets/**\<close> matches the paths that contain \<^verbatim>\<open>/secrets/\<close>, provided
  that no line feed stands before it and none after it but at the very end; for a path
  without line feeds that is every path that contains \<^verbatim>\<open>/secrets/\<close>.
\<close>

lemma match_glob_any_depth:
  "match_glob path ''**/secrets/**'' =
     Some (\<exists>x y. path = x @ ''/secrets/'' @ y \<and> newline \<notin> set x \<and>
                  (newline \<notin> set y \<or> (\<exists>z. y = z @ [newline] \<and> newline \<notin> set z)))"
  by (simp only: any_depth_tokens match_between_dot_stars match_last_dot_star)

lemma no_newline_parts:
  assumes "newline \<notin> set path"
  shows "(\<exists>x y. path = x @ w @ y \<and> newline \<notin> set x \<and>
            (newline \<notin> set y \<or> (\<exists>z. y = z @ [newline] \<and> newline \<notin> set z)))
         \<longleftrightarrow> (\<exists>x y. path = x @ w @ y)"
proof
  assume "\<exists>x y. path = x @ w @ y \<and> newline \<notin> set x \<and>
            (newline \<notin> set y \<or> (\<exists>z. y = z @ [newline] \<and> newline \<notin> set z))"
  then obtain x y where "path = x @ w @ y" by (elim exE conjE)
  then have "\<exists>y. path = x @ w @ y" by (rule exI)
  then show "\<exists>x y. path = x @ w @ y" by (rule exI)
next
  assume "\<exists>x y. path = x @ w @ y"
  then obtain x y where p: "path = x @ w @ y" by (elim exE)
  from assms have "newline \<notin> set x" "newline \<notin> set y"
    unfolding p by simp_all
  with p have "path = x @ w @ y \<and> newline \<notin> set x \<and>
            (newline \<notin> set y \<or> (\<exists>z. y = z @ [newline] \<and> newline \<notin> set z))"
    by simp
  then have "\<exists>y. path = x @ w @ y \<and> newline \<notin> set x \<and>
            (newline \<notin> set y \<or> (\<exists>z. y = z @ [newline] \<and> newline \<notin> set z))"
    by (rule exI)
  then show "\<exists>x y. path = x @ w @ y \<and> newline \<notin> set x \<and>
            (newline \<notin> set y \<or> (\<exists>z. y = z @ [newline] \<and> newline \<notin> set z))"
    by (rule exI)
qed

lemma match_glob_any_depth_plain:
  assumes "newline \<notin> set path"
  shows "match_glob path ''**/secrets/**'' = Some (\<exists>x y. path = x @ ''/secrets/'' @ y)"
  by (simp only: match_glob_any_depth no_newline_parts [OF assms])

end
